theory Spec2Isabelle
  imports Main
begin

section \<open>The nondeterministic Turing machine simulator\<close>

text \<open>
  The repository holds two source files, \<^verbatim>\<open>program.py\<close> and
  \<^verbatim>\<open>TM_trace_nefario.py\<close>, each with one class
  \<^verbatim>\<open>NondeterministicTuringMachine\<close> (methods \<^verbatim>\<open>load_machine\<close>,
  \<^verbatim>\<open>run\<close>, \<^verbatim>\<open>print_accept_path\<close>). Python strings are
  \<^typ>\<open>string\<close>, Python integers are \<^typ>\<open>int\<close>, the dictionary
  \<^verbatim>\<open>self.transitions\<close> is a map, the object is a record.
\<close>

subsection \<open>Data\<close>

text \<open>A configuration is the list \<^verbatim>\<open>[left_tape, state, right_tape]\<close> of three strings.\<close>

type_synonym config = "string \<times> string \<times> string"

text \<open>A table entry is the tuple \<^verbatim>\<open>(new_state, write_symbol, direction)\<close>.\<close>

type_synonym rule = "string \<times> string \<times> string"

text \<open>\<^verbatim>\<open>self.transitions\<close>: keys are the tuples \<^verbatim>\<open>(state, symbol)\<close>.\<close>

type_synonym table = "string \<times> string \<rightharpoonup> rule list"

record ntm =
  name :: string
  transitions :: table
  states :: "string set"
  sigma :: "string set"
  gamma :: "string set"
  start_state :: string
  accept_state :: string
  reject_state :: string
  max_depth :: int
  max_transitions :: int

text \<open>The two source files; they differ in how \<^verbatim>\<open>run\<close> treats an empty lookup.\<close>

datatype variant = Program_py | TM_trace_nefario_py

subsection \<open>The transition table: \<^verbatim>\<open>load_machine\<close>\<close>

datatype error = IndexError | ValueError

text \<open>
  \<^verbatim>\<open>d[k]\<close> on a \<^verbatim>\<open>defaultdict(list)\<close>: an absent key is inserted with the
  empty list before its value is returned.
\<close>

definition defaultdict_getitem :: "table \<Rightarrow> string \<times> string \<Rightarrow> rule list \<times> table" where
  "defaultdict_getitem d k = (case d k of None \<Rightarrow> ([], d(k \<mapsto> [])) | Some v \<Rightarrow> (v, d))"

text \<open>\<^verbatim>\<open>d[k].append(x)\<close>: the list stored under the key grows in place.\<close>

definition defaultdict_append :: "table \<Rightarrow> string \<times> string \<Rightarrow> rule \<Rightarrow> table" where
  "defaultdict_append d k x = (let (v, d') = defaultdict_getitem d k in d'(k \<mapsto> v @ [x]))"

text \<open>\<^verbatim>\<open>d.get(k, default)\<close>: no insertion, the dictionary is only read.\<close>

definition dict_get :: "table \<Rightarrow> string \<times> string \<Rightarrow> rule list \<Rightarrow> rule list" where
  "dict_get d k dflt = (case d k of None \<Rightarrow> dflt | Some v \<Rightarrow> v)"

text \<open>
  The loop \<^verbatim>\<open>for transition in rows[7:]\<close>: a row that does not unpack into five
  fields raises \<^verbatim>\<open>ValueError\<close>.
\<close>

fun load_transitions :: "table \<Rightarrow> string list list \<Rightarrow> error + table" where
  "load_transitions d [] = Inr d"
| "load_transitions d (transition # rest) =
     (case transition of
        [current_state, read_symbol, new_state, write_symbol, direction] \<Rightarrow>
          load_transitions
            (defaultdict_append d (current_state, read_symbol) (new_state, write_symbol, direction))
            rest
      | _ \<Rightarrow> Inl ValueError)"

text \<open>
  \<^verbatim>\<open>__init__\<close> followed by \<^verbatim>\<open>load_machine\<close>, on the rows the csv reader
  returns. \<^verbatim>\<open>rows[i]\<close> and \<^verbatim>\<open>rows[i][0]\<close> raise \<^verbatim>\<open>IndexError\<close> out of range.
\<close>

definition load_machine :: "string list list \<Rightarrow> error + ntm" where
  "load_machine rows =
     (if length rows < 7 \<or> rows ! 0 = [] \<or> rows ! 4 = [] \<or> rows ! 5 = [] \<or> rows ! 6 = []
      then Inl IndexError
      else case load_transitions Map.empty (drop 7 rows) of
             Inl e \<Rightarrow> Inl e
           | Inr d \<Rightarrow>
               Inr \<lparr> name = hd (rows ! 0), transitions = d,
                     states = set (rows ! 1), sigma = set (rows ! 2), gamma = set (rows ! 3),
                     start_state = hd (rows ! 4), accept_state = hd (rows ! 5),
                     reject_state = hd (rows ! 6),
                     max_depth = 100, max_transitions = 1000 \<rparr>)"

text \<open>
  The lookup as the spec words it: the entries of the transition rows for a key, in the
  order of the rows, and the empty sequence when no row has the key. (The source has no
  such function; it is what the table built by the code is compared with.)
\<close>

fun entries_for :: "string list list \<Rightarrow> string \<times> string \<Rightarrow> rule list" where
  "entries_for [] k = []"
| "entries_for (row # rest) k =
     (case row of
        [current_state, read_symbol, new_state, write_symbol, direction] \<Rightarrow>
          (if (current_state, read_symbol) = k then [(new_state, write_symbol, direction)] else [])
            @ entries_for rest k
      | _ \<Rightarrow> entries_for rest k)"

subsection \<open>Tape mechanics\<close>

text \<open>\<^verbatim>\<open>list(tape)\<close>: a string becomes the list of its one-character strings.\<close>

definition list_of_str :: "string \<Rightarrow> string list" where
  "list_of_str s = map (\<lambda>c. [c]) s"

text \<open>The write: \<^verbatim>\<open>new_right_tape[0] = write_symbol\<close>, or an append on an empty list.\<close>

definition write_head :: "string list \<Rightarrow> string \<Rightarrow> string list" where
  "write_head new_right_tape write_symbol =
     (if new_right_tape \<noteq> [] then new_right_tape[0 := write_symbol]
      else new_right_tape @ [write_symbol])"

text \<open>The move; a direction other than \<^verbatim>\<open>"L"\<close> and \<^verbatim>\<open>"R"\<close> leaves the head in place.\<close>

definition move_head :: "string \<Rightarrow> string list \<Rightarrow> string list \<Rightarrow> string list \<times> string list" where
  "move_head direction new_left_tape new_right_tape =
     (if direction = ''L'' then
        (if new_left_tape \<noteq> [] then (butlast new_left_tape, last new_left_tape # new_right_tape)
         else (new_left_tape, ''_'' # new_right_tape))
      else if direction = ''R'' then
        (let (l, r) = (if new_right_tape \<noteq> []
                       then (new_left_tape @ [hd new_right_tape], tl new_right_tape)
                       else (new_left_tape, new_right_tape))
         in (l, if r = [] then r @ [''_''] else r))
      else (new_left_tape, new_right_tape))"

text \<open>The body of the loop over the table entries: one successor configuration.\<close>

definition successor :: "string \<Rightarrow> string \<Rightarrow> rule \<Rightarrow> config" where
  "successor left_tape right_tape entry =
     (case entry of (new_state, write_symbol, direction) \<Rightarrow>
        (case move_head direction (list_of_str left_tape)
                (write_head (list_of_str right_tape) write_symbol) of
           (new_left_tape, new_right_tape) \<Rightarrow>
             (concat new_left_tape, new_state, concat new_right_tape)))"

definition head_symbol :: "string \<Rightarrow> string" where
  "head_symbol right_tape = (if right_tape \<noteq> [] then [hd right_tape] else ''_'')"

subsection \<open>The engine: \<^verbatim>\<open>run\<close>\<close>

text \<open>
  What \<^verbatim>\<open>run\<close> prints before it returns, with the number printed: "String accepted
  in ... transitions", "Execution stopped after ... transitions", "Execution stopped after
  reaching max depth of ...", "String rejected in ... transitions", "No valid paths found".
  \<^verbatim>\<open>TM_trace_nefario.py\<close> adds two counts to its messages (the number of levels, the
  number of configurations printed); both are functions of the tree, which is part of the
  result here.
\<close>

datatype outcome =
    Accepted int
  | StoppedTransitions int
  | StoppedDepth int
  | Rejected int
  | NoValidPaths

record result =
  outcome :: outcome
  final_tree :: "config list list"
  counter :: int

text \<open>
  The inner \<^verbatim>\<open>for\<close> loop over \<^verbatim>\<open>current_level\<close>, with its two local
  variables \<^verbatim>\<open>next_level\<close> and \<^verbatim>\<open>transitions\<close>. It ends in one of the two
  \<^verbatim>\<open>return\<close>s or falls through with the next level.
\<close>

datatype scan = Accept int | Budget int | Expanded "config list" int

fun scan_level :: "variant \<Rightarrow> ntm \<Rightarrow> config list \<Rightarrow> config list \<Rightarrow> int \<Rightarrow> scan" where
  "scan_level v self [] next_level n = Expanded next_level n"
| "scan_level v self ((left_tape, state, right_tape) # rest) next_level n =
     (if state = accept_state self then Accept n
      else if state = reject_state self then scan_level v self rest next_level n
      else if n + 1 > max_transitions self then Budget (n + 1)
      else if v = TM_trace_nefario_py
              \<and> dict_get (transitions self) (state, head_symbol right_tape) [] = []
      then scan_level v self rest
             (next_level @ [(left_tape, reject_state self, right_tape)]) (n + 1)
      else scan_level v self rest
             (next_level @ map (successor left_tape right_tape)
                (dict_get (transitions self) (state, head_symbol right_tape) [])) (n + 1))"

text \<open>
  What the scan of one configuration that is neither accepting nor rejecting appends to
  \<^verbatim>\<open>next_level\<close>. \<^verbatim>\<open>TM_trace_nefario.py\<close> appends the configuration
  itself, moved to the reject state, when the lookup is empty; \<^verbatim>\<open>program.py\<close>
  has no such branch and appends nothing then. (A name for the last two branches of
  \<^const>\<open>scan_level\<close>, see \<open>scan_level_expand\<close>.)
\<close>

definition appended :: "variant \<Rightarrow> ntm \<Rightarrow> config \<Rightarrow> config list" where
  "appended v self c =
     (case c of (left_tape, state, right_tape) \<Rightarrow>
        if v = TM_trace_nefario_py
           \<and> dict_get (transitions self) (state, head_symbol right_tape) [] = []
        then [(left_tape, reject_state self, right_tape)]
        else map (successor left_tape right_tape)
               (dict_get (transitions self) (state, head_symbol right_tape) []))"

text \<open>
  The test \<^verbatim>\<open>any(config[1] != self.reject_state for config in level)\<close>: some
  configuration of the level is not in the reject state.
\<close>

definition live :: "ntm \<Rightarrow> config list \<Rightarrow> bool" where
  "live self level = list_ex (\<lambda>c. fst (snd c) \<noteq> reject_state self) level"

text \<open>
  The width of the next level as the spec words it: the sum, over the configurations of a
  level that are neither accepting nor rejecting, of the number of table entries for
  (state, head symbol), counting 1 when there is none. (Not a function of the source.)
\<close>

definition spec_width :: "ntm \<Rightarrow> config list \<Rightarrow> nat" where
  "spec_width self level =
     sum_list (map (\<lambda>c. case c of (left_tape, state, right_tape) \<Rightarrow>
                 if state = accept_state self \<or> state = reject_state self then 0
                 else max 1 (length (dict_get (transitions self)
                                       (state, head_symbol right_tape) []))) level)"

text \<open>The tree satisfies the spec's width equation at every level.\<close>

definition widths_ok :: "ntm \<Rightarrow> config list list \<Rightarrow> bool" where
  "widths_ok self tree =
     (\<forall>i. Suc i < length tree \<longrightarrow> length (tree ! Suc i) = spec_width self (tree ! i))"

text \<open>
  A configuration that the scan does not have to expand without a table entry: it is
  accepting, or rejecting, or the lookup for its state and head symbol is not empty.
\<close>

definition has_move :: "ntm \<Rightarrow> config \<Rightarrow> bool" where
  "has_move self c =
     (case c of (left_tape, state, right_tape) \<Rightarrow>
        state = accept_state self \<or> state = reject_state self
        \<or> dict_get (transitions self) (state, head_symbol right_tape) [] \<noteq> [])"

text \<open>One pass of the \<^verbatim>\<open>while\<close> body: the scan, then the three checks after it.\<close>

datatype step = Halt result | Continue "config list list" int

definition loop_body :: "variant \<Rightarrow> ntm \<Rightarrow> config list list \<Rightarrow> int \<Rightarrow> step" where
  "loop_body v self tree n =
     (case scan_level v self (last tree) [] n of
        Accept n' \<Rightarrow>
          Halt \<lparr> outcome = Accepted (int (length tree) - 1), final_tree = tree, counter = n' \<rparr>
      | Budget n' \<Rightarrow>
          Halt \<lparr> outcome = StoppedTransitions (max_transitions self), final_tree = tree,
                 counter = n' \<rparr>
      | Expanded next_level n' \<Rightarrow>
          (let tree' = (if next_level \<noteq> [] then tree @ [next_level] else tree) in
           if int (length tree') > max_depth self then
             Halt \<lparr> outcome = StoppedDepth (max_depth self), final_tree = tree', counter = n' \<rparr>
           else if \<not> list_ex (\<lambda>c. fst (snd c) \<noteq> reject_state self) next_level then
             Halt \<lparr> outcome = Rejected (int (length tree') - 1), final_tree = tree',
                    counter = n' \<rparr>
           else Continue tree' n'))"

lemma loop_body_Continue:
  assumes "loop_body v self tree n = Continue tree' n'"
  shows "length tree' = Suc (length tree)" and "int (length tree') \<le> max_depth self"
  using assms
  by (auto simp: loop_body_def Let_def split: scan.splits if_splits)

function run_loop :: "variant \<Rightarrow> ntm \<Rightarrow> config list list \<Rightarrow> int \<Rightarrow> result" where
  "run_loop v self tree n =
     (if tree \<noteq> [] \<and> n < max_transitions self then
        (case loop_body v self tree n of
           Halt r \<Rightarrow> r
         | Continue tree' n' \<Rightarrow> run_loop v self tree' n')
      else \<lparr> outcome = NoValidPaths, final_tree = tree, counter = n \<rparr>)"
  by pat_completeness auto
termination
proof (relation "measure (\<lambda>(v, self, tree, n). nat (max_depth self - int (length tree)))")
  show "wf (measure (\<lambda>(v, self, tree, n). nat (max_depth self - int (length tree))))"
    by simp
next
  fix v :: variant and self :: ntm and tree :: "config list list" and n :: int
    and tree' :: "config list list" and n' :: int
  assume "tree \<noteq> [] \<and> n < max_transitions self" and c: "loop_body v self tree n = Continue tree' n'"
  from loop_body_Continue [OF c]
  show "((v, self, tree', n'), (v, self, tree, n))
          \<in> measure (\<lambda>(v, self, tree, n). nat (max_depth self - int (length tree)))"
    by simp
qed

declare run_loop.simps [simp del]

text \<open>
  \<^verbatim>\<open>run\<close>: the two assignments to the object, the initial configuration, the loop.
  The object after the call is returned beside the result.
\<close>

definition run :: "variant \<Rightarrow> ntm \<Rightarrow> string \<Rightarrow> int \<Rightarrow> int \<Rightarrow> ntm \<times> result" where
  "run v self input_string max_depth_arg max_transitions_arg =
     (let self' = self\<lparr> max_depth := max_depth_arg, max_transitions := max_transitions_arg \<rparr>;
          initial_config = ('''', start_state self', input_string)
      in (self', run_loop v self' [[initial_config]] 0))"

subsection \<open>Machines used as concrete inputs\<close>

text \<open>
  Each machine is given by the rows of its definition file and by the object that
  \<^const>\<open>load_machine\<close> builds from them. States are \<^verbatim>\<open>q0\<close>, \<^verbatim>\<open>q1\<close>,
  \<^verbatim>\<open>q2\<close>, \<^verbatim>\<open>qa\<close> (accept) and \<^verbatim>\<open>qr\<close> (reject).
\<close>

definition header_rows :: "string \<Rightarrow> string \<Rightarrow> string list list" where
  "header_rows nm start =
     [[nm], [''q0'', ''q1'', ''q2'', ''qa'', ''qr''], [''0''], [''0'', ''_''],
      [start], [''qa''], [''qr'']]"

definition loaded :: "string \<Rightarrow> string \<Rightarrow> table \<Rightarrow> ntm" where
  "loaded nm start d =
     \<lparr> name = nm, transitions = d, states = {''q0'', ''q1'', ''q2'', ''qa'', ''qr''},
       sigma = {''0''}, gamma = {''0'', ''_''}, start_state = start, accept_state = ''qa'',
       reject_state = ''qr'', max_depth = 100, max_transitions = 1000 \<rparr>"

text \<open>No transition at all.\<close>

definition no_rules_rows :: "string list list" where
  "no_rules_rows = header_rows ''none'' ''q0''"

definition no_rules :: ntm where
  "no_rules = loaded ''none'' ''q0'' Map.empty"

text \<open>The start state is the accept state.\<close>

definition accept_at_start_rows :: "string list list" where
  "accept_at_start_rows = header_rows ''start'' ''qa''"

definition accept_at_start :: ntm where
  "accept_at_start = loaded ''start'' ''qa'' Map.empty"

text \<open>One transition, from the start state into the accept state.\<close>

definition one_step_rows :: "string list list" where
  "one_step_rows = header_rows ''one'' ''q0'' @ [[''q0'', ''0'', ''qa'', ''1'', ''R'']]"

definition one_step :: ntm where
  "one_step = loaded ''one'' ''q0'' [(''q0'', ''0'') \<mapsto> [(''qa'', ''1'', ''R'')]]"

text \<open>
  Two moves on \<^verbatim>\<open>(q0, 0)\<close>; \<^verbatim>\<open>q1\<close> runs right over blanks for ever,
  \<^verbatim>\<open>q2\<close> has no move.
\<close>

definition fork_rows :: "string list list" where
  "fork_rows = header_rows ''fork'' ''q0'' @
     [[''q0'', ''0'', ''q1'', ''0'', ''R''],
      [''q0'', ''0'', ''q2'', ''0'', ''R''],
      [''q1'', ''_'', ''q1'', ''_'', ''R'']]"

definition fork :: ntm where
  "fork = loaded ''fork'' ''q0''
     [(''q0'', ''0'') \<mapsto> [(''q1'', ''0'', ''R''), (''q2'', ''0'', ''R'')],
      (''q1'', ''_'') \<mapsto> [(''q1'', ''_'', ''R'')]]"

section \<open>Properties\<close>

subsection \<open>The concrete machines are what the loader builds\<close>

lemma load_no_rules: "load_machine no_rules_rows = Inr no_rules"
  by (simp add: load_machine_def no_rules_rows_def no_rules_def header_rows_def loaded_def)

lemma load_accept_at_start: "load_machine accept_at_start_rows = Inr accept_at_start"
  by (simp add: load_machine_def accept_at_start_rows_def accept_at_start_def header_rows_def
      loaded_def)

lemma load_one_step: "load_machine one_step_rows = Inr one_step"
  by (simp add: load_machine_def one_step_rows_def one_step_def header_rows_def loaded_def
      defaultdict_append_def defaultdict_getitem_def)

lemma load_fork: "load_machine fork_rows = Inr fork"
  by (simp add: load_machine_def fork_rows_def fork_def header_rows_def loaded_def
      defaultdict_append_def defaultdict_getitem_def fun_upd_twist)

lemmas machine_defs = no_rules_def accept_at_start_def one_step_def fork_def loaded_def

lemmas engine_defs = run_def run_loop.simps loop_body_def dict_get_def head_symbol_def
  successor_def move_head_def write_head_def list_of_str_def

subsection \<open>A budget of zero\<close>

text \<open>
  Claim C7. With \<^verbatim>\<open>max_transitions = 0\<close> the loop condition
  \<^verbatim>\<open>transitions < self.max_transitions\<close> is false at once: for every machine, input
  and depth limit, and in both source files, the run ends with the message
  "No valid paths found", the tree is the single initial level and the counter is 0.
\<close>

theorem zero_budget_exhausts:
  "snd (run v self input_string max_depth_arg 0) =
     \<lparr> outcome = NoValidPaths,
       final_tree = [[('''', start_state self, input_string)]],
       counter = 0 \<rparr>"
  by (simp add: run_def run_loop.simps)

subsection \<open>Acceptance is seen only when a level is scanned\<close>

text \<open>
  Claim C10. The machine \<^const>\<open>one_step\<close> has the single transition from the start
  state \<^verbatim>\<open>q0\<close> on \<^verbatim>\<open>0\<close> into the accept state \<^verbatim>\<open>qa\<close>. On input
  \<^verbatim>\<open>0\<close> with \<^verbatim>\<open>max_transitions = 1\<close> the first pass applies that transition
  and appends level 1, whose only configuration is in the accept state; the counter is
  then 1, the loop is not entered again, and the run reports "No valid paths found" with
  that accepting configuration in the last level of its tree. With
  \<^verbatim>\<open>max_transitions = 2\<close> the loop is entered once more, level 1 is scanned and the
  run reports acceptance at depth 1. In both source files.
\<close>

theorem accept_unseen_at_budget:
  "snd (run Program_py one_step ''0'' 100 1) =
     \<lparr> outcome = NoValidPaths,
       final_tree = [[('''', ''q0'', ''0'')], [(''1'', ''qa'', ''_'')]],
       counter = 1 \<rparr>
   \<and> snd (run TM_trace_nefario_py one_step ''0'' 100 1) =
     \<lparr> outcome = NoValidPaths,
       final_tree = [[('''', ''q0'', ''0'')], [(''1'', ''qa'', ''_'')]],
       counter = 1 \<rparr>
   \<and> accept_state one_step = ''qa''
   \<and> start_state one_step = ''q0''
   \<and> outcome (snd (run Program_py one_step ''0'' 100 2)) = Accepted 1
   \<and> outcome (snd (run TM_trace_nefario_py one_step ''0'' 100 2)) = Accepted 1"
  by (simp add: engine_defs machine_defs)

subsection \<open>The scan and the loop, step by step\<close>

lemma scan_level_expand:
  assumes "q \<noteq> accept_state self" and "q \<noteq> reject_state self"
    and "n + 1 \<le> max_transitions self"
  shows "scan_level v self ((l, q, r) # cs) nl n =
           scan_level v self cs (nl @ appended v self (l, q, r)) (n + 1)"
  using assms by (simp add: appended_def)

lemma run_loop_stop:
  "tree = [] \<or> \<not> n < max_transitions self \<Longrightarrow>
     run_loop v self tree n = \<lparr> outcome = NoValidPaths, final_tree = tree, counter = n \<rparr>"
  by (subst run_loop.simps) auto

lemma run_loop_Halt:
  "tree \<noteq> [] \<Longrightarrow> n < max_transitions self \<Longrightarrow> loop_body v self tree n = Halt r \<Longrightarrow>
     run_loop v self tree n = r"
  by (subst run_loop.simps) simp

lemma run_loop_Continue:
  "tree \<noteq> [] \<Longrightarrow> n < max_transitions self \<Longrightarrow> loop_body v self tree n = Continue tree' n' \<Longrightarrow>
     run_loop v self tree n = run_loop v self tree' n'"
  by (subst run_loop.simps) simp

lemma loop_body_cases:
  obtains (accept) n' where "scan_level v self (last tree) [] n = Accept n'"
      "loop_body v self tree n =
         Halt \<lparr> outcome = Accepted (int (length tree) - 1), final_tree = tree, counter = n' \<rparr>"
  | (budget) n' where "scan_level v self (last tree) [] n = Budget n'"
      "loop_body v self tree n =
         Halt \<lparr> outcome = StoppedTransitions (max_transitions self), final_tree = tree,
                counter = n' \<rparr>"
  | (empty) n' where "scan_level v self (last tree) [] n = Expanded [] n'"
      "loop_body v self tree n =
         Halt \<lparr> outcome = (if int (length tree) > max_depth self then StoppedDepth (max_depth self)
                            else Rejected (int (length tree) - 1)),
                final_tree = tree, counter = n' \<rparr>"
  | (halt) nl n' where "scan_level v self (last tree) [] n = Expanded nl n'" "nl \<noteq> []"
      "int (length tree) + 1 > max_depth self \<or> \<not> live self nl"
      "loop_body v self tree n =
         Halt \<lparr> outcome = (if int (length tree) + 1 > max_depth self
                            then StoppedDepth (max_depth self)
                            else Rejected (int (length tree))),
                final_tree = tree @ [nl], counter = n' \<rparr>"
  | (continue) nl n' where "scan_level v self (last tree) [] n = Expanded nl n'" "nl \<noteq> []"
      "int (length tree) + 1 \<le> max_depth self" "live self nl"
      "loop_body v self tree n = Continue (tree @ [nl]) n'"
proof (cases "scan_level v self (last tree) [] n")
  case (Accept n')
  then show ?thesis using accept by (simp add: loop_body_def)
next
  case (Budget n')
  then show ?thesis using budget by (simp add: loop_body_def)
next
  case (Expanded nl n')
  show ?thesis
  proof (cases "nl = []")
    case True
    with Expanded show ?thesis using empty [of n'] by (simp add: loop_body_def)
  next
    case False
    show ?thesis
    proof (cases "int (length tree) + 1 > max_depth self \<or> \<not> live self nl")
      case True
      with Expanded False show ?thesis using halt [of nl n']
        by (auto simp: loop_body_def live_def)
    next
      case False
      with Expanded \<open>nl \<noteq> []\<close> show ?thesis using continue [of nl n']
        by (auto simp: loop_body_def live_def)
    qed
  qed
qed




subsection \<open>A machine that starts in its accept state\<close>

text \<open>
  Claim C6, as the spec states it, for every \<^verbatim>\<open>maxTransitions\<close>: with a budget
  of 0 (or less) the loop is never entered, nothing is scanned and the run reports
  "No valid paths found", not acceptance.
\<close>

theorem start_accept_counterexample:
  "start_state accept_at_start = accept_state accept_at_start
   \<and> outcome (snd (run Program_py accept_at_start ''0'' 100 0)) = NoValidPaths
   \<and> outcome (snd (run TM_trace_nefario_py accept_at_start ''0'' 100 0)) = NoValidPaths"
  by (simp add: engine_defs machine_defs)

text \<open>
  Claim C6, amended. If the start state is the accept state and
  \<^verbatim>\<open>max_transitions\<close> is at least 1, the run reports acceptance at depth 0, the tree
  is the single level holding the initial configuration, and the counter is still 0 (no
  transition was applied); in both source files, for every input and depth limit.
\<close>

theorem start_accept_amended:
  assumes "start_state self = accept_state self" and "0 < max_transitions_arg"
  shows "snd (run v self input_string max_depth_arg max_transitions_arg) =
           \<lparr> outcome = Accepted 0,
             final_tree = [[('''', start_state self, input_string)]],
             counter = 0 \<rparr>"
  using assms by (simp add: run_def run_loop.simps loop_body_def)

theorem start_accept_witness:
  "start_state accept_at_start = accept_state accept_at_start \<and> (0::int) < 1000
   \<and> snd (run TM_trace_nefario_py accept_at_start ''0'' 100 1000) =
       \<lparr> outcome = Accepted 0, final_tree = [[('''', ''qa'', ''0'')]], counter = 0 \<rparr>"
  using start_accept_amended [of accept_at_start 1000 TM_trace_nefario_py "''0''" 100]
  by (simp add: machine_defs)

subsection \<open>Termination and the two limits\<close>




subsection \<open>A frontier without successors\<close>

text \<open>
  Claim C5, as the spec states it: on the machine without transitions and with
  \<^verbatim>\<open>max_depth = 0\<close>, \<^verbatim>\<open>program.py\<close> expands the initial level to nothing
  and then stops at the depth check, which comes before the rejection check.
\<close>

theorem frontier_dies_counterexample:
  "scan_level Program_py (no_rules\<lparr>max_depth := 0\<rparr>) [('''', ''q0'', ''0'')] [] 0 = Expanded [] 1
   \<and> outcome (snd (run Program_py no_rules ''0'' 0 1000)) = StoppedDepth 0"
  by (simp add: engine_defs machine_defs)

text \<open>
  Claim C5, amended. When the scan of the current level ends with an empty next level, the
  tree is left as it is and the run halts: with a rejection whose depth is the index of the
  current level if the tree has no more than \<^verbatim>\<open>max_depth\<close> levels, and with the
  depth-limit message otherwise. When the next level is not empty and all its
  configurations are in the reject state, it is appended and the same two checks report
  the index of the new level: the two causes of rejection differ in the depth reported and
  in the tree.
\<close>

theorem frontier_dies:
  assumes "tree \<noteq> []" and "n < max_transitions self"
    and "scan_level v self (last tree) [] n = Expanded next_level n'"
    and "list_all (\<lambda>c. fst (snd c) = reject_state self) next_level"
  shows "run_loop v self tree n =
           (if next_level = [] then
              \<lparr> outcome = (if int (length tree) > max_depth self then StoppedDepth (max_depth self)
                            else Rejected (int (length tree) - 1)),
                final_tree = tree, counter = n' \<rparr>
            else
              \<lparr> outcome = (if int (length tree) + 1 > max_depth self
                            then StoppedDepth (max_depth self)
                            else Rejected (int (length tree))),
                final_tree = tree @ [next_level], counter = n' \<rparr>)"
  using assms
  by (simp add: run_loop.simps loop_body_def list_ex_iff list_all_iff)


theorem frontier_dies_witness:
  "[[('''', ''q0'', ''0'')]] \<noteq> [] \<and> (0::int) < max_transitions no_rules
   \<and> scan_level Program_py no_rules (last [[('''', ''q0'', ''0'')]]) [] 0 = Expanded [] 1
   \<and> list_all (\<lambda>c. fst (snd c) = reject_state no_rules) []
   \<and> run_loop Program_py no_rules [[('''', ''q0'', ''0'')]] 0 =
       \<lparr> outcome = Rejected 0, final_tree = [[('''', ''q0'', ''0'')]], counter = 1 \<rparr>"
  using frontier_dies [of "[[('''', ''q0'', ''0'')]]" 0 no_rules Program_py "[]" 1]
  by (simp add: machine_defs dict_get_def head_symbol_def)

subsection \<open>The transition table is read in load order and never written\<close>

lemma dict_get_append:
  "dict_get (defaultdict_append d k x) k' [] =
     dict_get d k' [] @ (if k = k' then [x] else [])"
  by (simp add: dict_get_def defaultdict_append_def defaultdict_getitem_def split: option.splits)

lemma load_transitions_lookup:
  "load_transitions d rows = Inr d' \<Longrightarrow> dict_get d' k [] = dict_get d k [] @ entries_for rows k"
proof (induction rows arbitrary: d)
  case Nil
  then show ?case by simp
next
  case (Cons row rows)
  from Cons.prems obtain cs rs ns ws dir where row: "row = [cs, rs, ns, ws, dir]"
    by (auto split: list.splits)
  with Cons.prems have "load_transitions (defaultdict_append d (cs, rs) (ns, ws, dir)) rows = Inr d'"
    by simp
  from Cons.IH [OF this] row show ?case
    by (simp add: dict_get_append)
qed

text \<open>
  Claim C9. For a machine that \<^const>\<open>load_machine\<close> has built from the rows, the
  query \<^verbatim>\<open>self.transitions.get((state, symbol), [])\<close> returns the entries of the
  rows for that key in row order, and the empty list (no exception) when the key is
  absent; \<^verbatim>\<open>get\<close> does not insert the key, and after \<^verbatim>\<open>run\<close> the table
  of the object is the table that was loaded, in both source files.
\<close>

theorem lookup_in_load_order:
  assumes "load_machine rows = Inr self"
  shows "dict_get (transitions self) k [] = entries_for (drop 7 rows) k
       \<and> (transitions self k = None \<longrightarrow> dict_get (transitions self) k [] = [])
       \<and> transitions (fst (run v self input_string max_depth_arg max_transitions_arg))
           = transitions self"
proof -
  from assms obtain d where d: "load_transitions Map.empty (drop 7 rows) = Inr d"
    and t: "transitions self = d"
    by (auto simp: load_machine_def split: if_splits sum.splits)
  from load_transitions_lookup [OF d, of k] t
  have "dict_get (transitions self) k [] = entries_for (drop 7 rows) k"
    by (simp add: dict_get_def)
  then show ?thesis
    by (simp add: dict_get_def run_def Let_def)
qed

theorem lookup_in_load_order_witness:
  "load_machine fork_rows = Inr fork
   \<and> dict_get (transitions fork) (''q0'', ''0'') [] = entries_for (drop 7 fork_rows) (''q0'', ''0'')
   \<and> entries_for (drop 7 fork_rows) (''q0'', ''0'') = [(''q1'', ''0'', ''R''), (''q2'', ''0'', ''R'')]
   \<and> transitions (fst (run Program_py fork ''0'' 100 1000)) = transitions fork"
proof -
  have e: "entries_for (drop 7 fork_rows) (''q0'', ''0'')
             = [(''q1'', ''0'', ''R''), (''q2'', ''0'', ''R'')]"
    by (simp add: fork_rows_def header_rows_def)
  show ?thesis
    using lookup_in_load_order [OF load_fork, of "(''q0'', ''0'')" Program_py "''0''" 100 1000]
      load_fork e
    by simp
qed

subsection \<open>Tape shifts\<close>

lemma concat_list_of_str: "concat (list_of_str s) = s"
  by (induction s) (simp_all add: list_of_str_def)

lemma successor_left:
  "successor l r (q, [a], ''L'') =
     (butlast l, q, (if l = [] then CHR ''_'' else last l) # a # tl r)"
proof -
  have w: "concat (write_head (list_of_str r) [a]) = a # tl r"
    by (cases r) (simp_all add: write_head_def list_of_str_def concat_list_of_str [unfolded list_of_str_def])
  show ?thesis
  proof (cases l rule: rev_cases)
    case Nil
    then show ?thesis using w
      by (simp add: successor_def move_head_def list_of_str_def)
  next
    case (snoc xs x)
    then show ?thesis using w
      by (simp add: successor_def move_head_def list_of_str_def
          concat_list_of_str [unfolded list_of_str_def])
  qed
qed

lemma successor_right:
  "successor l r (q, [a], ''R'') = (l @ [a], q, if tl r = [] then ''_'' else tl r)"
proof (cases r)
  case Nil
  then show ?thesis
    by (simp add: successor_def move_head_def write_head_def list_of_str_def
        concat_list_of_str [unfolded list_of_str_def])
next
  case (Cons x xs)
  then show ?thesis
    by (cases xs) (simp_all add: successor_def move_head_def write_head_def list_of_str_def
        concat_list_of_str [unfolded list_of_str_def])
qed

text \<open>
  Claim C8, as the spec states it: from the configuration with an empty left tape and right
  tape \<^verbatim>\<open>ab\<close>, writing \<^verbatim>\<open>x\<close> and moving left, then writing back the
  symbol read and moving right, gives the left tape \<^verbatim>\<open>_\<close>, not the empty left
  tape of the original: the blank that the left move put on the tape stays. In the other
  order, from right tape \<^verbatim>\<open>a\<close>, the blank that the right move appended stays
  behind the written cell.
\<close>

theorem shift_round_trip_counterexample:
  "(case successor '''' ''ab'' (''q1'', ''x'', ''L'') of
      (l1, s1, r1) \<Rightarrow> successor l1 r1 (''q2'', head_symbol r1, ''R'')) = (''_'', ''q2'', ''xb'')
   \<and> (case successor ''c'' ''a'' (''q1'', ''x'', ''R'') of
      (l1, s1, r1) \<Rightarrow> successor l1 r1 (''q2'', head_symbol r1, ''L'')) = (''c'', ''q2'', ''x_'')"
  by (simp add: successor_def move_head_def write_head_def list_of_str_def head_symbol_def)


text \<open>
  Claim C8, amended. For every configuration and symbol \<open>a\<close>: a step that writes
  \<open>a\<close> and moves left, followed by a step that writes back the symbol then read and
  moves right, gives the original tapes with \<open>a\<close> in the cell first read, except that
  an empty left tape has become the one blank cell; in the other order (right, then left)
  it gives the original tapes with \<open>a\<close> in the cell first read, except that a right
  tape of at most one cell has a blank cell after \<open>a\<close>. Where no blank was
  materialized (non-empty left tape, respectively a right tape of two cells or more) the
  tapes and the head position are exactly the original ones but for the written cell.
\<close>

theorem shift_round_trip:
  "(case successor l r (q1, [a], ''L'') of
      (l1, s1, r1) \<Rightarrow> successor l1 r1 (q2, head_symbol r1, ''R''))
     = (if l = [] then ''_'' else l, q2, a # tl r)
   \<and> (case successor l r (q1, [a], ''R'') of
        (l1, s1, r1) \<Rightarrow> successor l1 r1 (q2, head_symbol r1, ''L''))
     = (l, q2, a # (if tl r = [] then ''_'' else tl r))"
proof -
  have hs: "\<And>x xs. head_symbol (x # xs) = [x]" by (simp add: head_symbol_def)
  have "successor (butlast l) ((if l = [] then CHR ''_'' else last l) # a # tl r)
          (q2, [if l = [] then CHR ''_'' else last l], ''R'')
        = (if l = [] then ''_'' else l, q2, a # tl r)"
    by (simp add: successor_right)
  moreover have "successor (l @ [a]) (if tl r = [] then ''_'' else tl r)
          (q2, head_symbol (if tl r = [] then ''_'' else tl r), ''L'')
        = (l, q2, a # (if tl r = [] then ''_'' else tl r))"
    by (cases "tl r") (simp_all add: head_symbol_def successor_left)
  ultimately show ?thesis
    by (simp add: successor_left successor_right hs)
qed

subsection \<open>Levels in which every configuration rejects\<close>

lemma scan_level_dead:
  assumes "\<not> live self cs"
  shows "scan_level v self cs nl n = Accept n \<or> scan_level v self cs nl n = Expanded nl n"
  using assms
proof (induction cs)
  case Nil
  then show ?case by simp
next
  case (Cons c cs)
  obtain l q r where c: "c = (l, q, r)" by (cases c)
  from Cons.prems c have q: "q = reject_state self" and d: "\<not> live self cs"
    by (simp_all add: live_def)
  show ?case
  proof (cases "q = accept_state self")
    case True
    with c show ?thesis by simp
  next
    case False
    with c q have "scan_level v self (c # cs) nl n = scan_level v self cs nl n" by simp
    with Cons.IH [OF d] show ?thesis by simp
  qed
qed

lemma scan_level_grows:
  assumes "scan_level v self cs nl n = Expanded nl' n'" and "nl' \<noteq> nl"
  shows "live self cs"
  using assms scan_level_dead [of self cs v nl n] by auto


lemma set_butlast_last: "tree \<noteq> [] \<Longrightarrow> set tree = insert (last tree) (set (butlast tree))"
  by (cases tree rule: rev_cases) auto

lemma run_loop_live:
  assumes "\<forall>level \<in> set (butlast tree). live self level" and "tree \<noteq> []"
  shows "(\<forall>level \<in> set (butlast (final_tree (run_loop v self tree n))). live self level)
       \<and> final_tree (run_loop v self tree n) \<noteq> []
       \<and> (live self (last tree) \<longrightarrow> \<not> live self (last (final_tree (run_loop v self tree n))) \<longrightarrow>
            outcome (run_loop v self tree n) =
              (if int (length (final_tree (run_loop v self tree n))) > max_depth self
               then StoppedDepth (max_depth self)
               else Rejected (int (length (final_tree (run_loop v self tree n))) - 1)))"
  using assms
proof (induction v self tree n rule: run_loop.induct)
  case (1 v self tree n)
  note prems = "1.prems"
  show ?case
  proof (cases "tree \<noteq> [] \<and> n < max_transitions self")
    case False
    then have "run_loop v self tree n = \<lparr> outcome = NoValidPaths, final_tree = tree, counter = n \<rparr>"
      by (intro run_loop_stop) simp
    with prems show ?thesis by simp
  next
    case True
    then have ne: "tree \<noteq> []" and lt: "n < max_transitions self" by simp_all
    show ?thesis
    proof (cases rule: loop_body_cases [of v self tree n])
      case (accept n')
      with prems show ?thesis by (simp add: run_loop_Halt [OF ne lt accept(2)])
    next
      case (budget n')
      with prems show ?thesis by (simp add: run_loop_Halt [OF ne lt budget(2)])
    next
      case (empty n')
      with prems show ?thesis by (simp add: run_loop_Halt [OF ne lt empty(2)])
    next
      case (halt nl n')
      from scan_level_grows [OF halt(1)] halt(2) have "live self (last tree)" by simp
      with prems ne have all: "\<forall>level \<in> set tree. live self level"
        by (simp add: set_butlast_last [OF ne])
      from halt(3) all show ?thesis
        by (auto simp: run_loop_Halt [OF ne lt halt(4)])
    next
      case (continue nl n')
      from scan_level_grows [OF continue(1)] continue(2) have "live self (last tree)" by simp
      with prems ne have all: "\<forall>level \<in> set (butlast (tree @ [nl])). live self level"
        by (simp add: set_butlast_last [OF ne])
      have eq: "run_loop v self tree n = run_loop v self (tree @ [nl]) n'"
        by (rule run_loop_Continue [OF ne lt continue(5)])
      from "1.IH" [OF True continue(5) all] continue(4)
      show ?thesis unfolding eq by simp
    qed
  qed
qed


text \<open>
  Claim C4, as the spec states it: on the machine without transitions and with
  \<^verbatim>\<open>max_depth = 1\<close>, \<^verbatim>\<open>TM_trace_nefario.py\<close> appends a level 1 whose
  only configuration is in the reject state; the tree then has two levels, more than
  \<^verbatim>\<open>max_depth\<close>, and the depth check, which comes before the rejection check,
  ends the run with the depth-limit message, not with a rejection.
\<close>

theorem uniform_reject_counterexample:
  "accept_state no_rules \<noteq> reject_state no_rules
   \<and> final_tree (snd (run TM_trace_nefario_py no_rules ''0'' 1 1000))
       = [[('''', ''q0'', ''0'')], [('''', ''qr'', ''0'')]]
   \<and> outcome (snd (run TM_trace_nefario_py no_rules ''0'' 1 1000)) = StoppedDepth 1"
  by (simp add: engine_defs machine_defs)


text \<open>
  Claim C4, amended. Let the accept state differ from the reject state. If every
  configuration of some level of the tree is in the reject state, that level is the last
  one (no further level is computed) and the run halts there: it reports rejection with
  that level's index when the tree has no more than \<^verbatim>\<open>max_depth\<close> levels, and the
  depth-limit message when it has more. (Only the initial level can be such a level with
  \<^verbatim>\<open>max_transitions\<close> at 0 or below, and then the loop is not entered and the run
  reports "No valid paths found".) In both source files.
\<close>

theorem uniform_reject_halts:
  assumes "accept_state self \<noteq> reject_state self"
    and "i < length (final_tree (snd (run v self input_string max_depth_arg max_transitions_arg)))"
    and "\<not> live self
            (final_tree (snd (run v self input_string max_depth_arg max_transitions_arg)) ! i)"
  shows "i = length (final_tree (snd (run v self input_string max_depth_arg max_transitions_arg))) - 1
       \<and> outcome (snd (run v self input_string max_depth_arg max_transitions_arg)) =
           (if max_transitions_arg \<le> 0 then NoValidPaths
            else if int (length (final_tree
                    (snd (run v self input_string max_depth_arg max_transitions_arg))))
                    > max_depth_arg
            then StoppedDepth max_depth_arg
            else Rejected (int i))"
proof -
  define self' where "self' = self\<lparr> max_depth := max_depth_arg, max_transitions := max_transitions_arg \<rparr>"
  define tree0 :: "config list list" where "tree0 = [[('''', start_state self, input_string)]]"
  define r where "r = run_loop v self' tree0 0"
  have run: "snd (run v self input_string max_depth_arg max_transitions_arg) = r"
    by (simp add: run_def r_def self'_def tree0_def Let_def)
  have lv: "live self' = live self"
    by (simp add: live_def self'_def fun_eq_iff)
  note i = assms(2) [unfolded run] and dead = assms(3) [unfolded run]
  show ?thesis
  proof (cases "start_state self = reject_state self")
    case True
    with assms(1) have "r = \<lparr> outcome = (if max_transitions_arg \<le> 0 then NoValidPaths
                                 else if 1 > max_depth_arg then StoppedDepth max_depth_arg
                                 else Rejected 0),
                     final_tree = tree0, counter = 0 \<rparr>"
      by (simp add: r_def tree0_def self'_def run_loop.simps loop_body_def)
    with i show ?thesis unfolding run by (simp add: tree0_def)
  next
    case False
    then have l0: "live self' (last tree0)"
      by (simp add: live_def tree0_def self'_def)
    have "\<forall>level \<in> set (butlast tree0). live self' level" and "tree0 \<noteq> []"
      by (simp_all add: tree0_def)
    from run_loop_live [OF this, of v 0] l0
    have inv: "(\<forall>level \<in> set (butlast (final_tree r)). live self' level)
       \<and> final_tree r \<noteq> []
       \<and> (\<not> live self' (last (final_tree r)) \<longrightarrow>
            outcome r = (if int (length (final_tree r)) > max_depth self'
                         then StoppedDepth (max_depth self')
                         else Rejected (int (length (final_tree r)) - 1)))"
      unfolding r_def by blast
    have md: "max_depth self' = max_depth_arg" by (simp add: self'_def)
    from inv have bl: "\<forall>level \<in> set (butlast (final_tree r)). live self level"
      and ne: "final_tree r \<noteq> []"
      and out: "\<not> live self (last (final_tree r)) \<Longrightarrow>
                  outcome r = (if int (length (final_tree r)) > max_depth_arg
                               then StoppedDepth max_depth_arg
                               else Rejected (int (length (final_tree r)) - 1))"
      unfolding lv md by blast+
    have last_i: "i = length (final_tree r) - 1"
    proof (rule ccontr)
      assume "i \<noteq> length (final_tree r) - 1"
      with i have "i < length (butlast (final_tree r))" by simp
      then have "final_tree r ! i \<in> set (butlast (final_tree r))"
        by (metis nth_butlast nth_mem)
      with bl dead show False by simp
    qed
    with ne have li: "last (final_tree r) = final_tree r ! i"
      by (simp add: last_conv_nth)
    have pos: "\<not> max_transitions_arg \<le> 0"
    proof
      assume "max_transitions_arg \<le> 0"
      then have "r = \<lparr> outcome = NoValidPaths, final_tree = tree0, counter = 0 \<rparr>"
        unfolding r_def by (intro run_loop_stop) (simp add: self'_def)
      with l0 lv dead li show False by simp
    qed
    from out dead li last_i i pos show ?thesis
      unfolding run by (simp add: of_nat_diff)
  qed
qed

theorem uniform_reject_halts_witness:
  "accept_state no_rules \<noteq> reject_state no_rules
   \<and> (1::nat) < length (final_tree (snd (run TM_trace_nefario_py no_rules ''0'' 100 1000)))
   \<and> \<not> live no_rules (final_tree (snd (run TM_trace_nefario_py no_rules ''0'' 100 1000)) ! 1)
   \<and> outcome (snd (run TM_trace_nefario_py no_rules ''0'' 100 1000)) = Rejected 1"
proof -
  have t: "final_tree (snd (run TM_trace_nefario_py no_rules ''0'' 100 1000))
             = [[('''', ''q0'', ''0'')], [('''', ''qr'', ''0'')]]"
    by (simp add: engine_defs machine_defs)
  have a: "accept_state no_rules \<noteq> reject_state no_rules" by (simp add: machine_defs)
  have i: "1 < length (final_tree (snd (run TM_trace_nefario_py no_rules ''0'' 100 1000)))"
    by (simp add: t)
  have d: "\<not> live no_rules (final_tree (snd (run TM_trace_nefario_py no_rules ''0'' 100 1000)) ! 1)"
    unfolding t by (simp add: live_def machine_defs)
  from uniform_reject_halts [OF a i d] a i d show ?thesis
    by (simp add: t)
qed

subsection \<open>The width of the levels\<close>

lemma length_appended_trace:
  "length (appended TM_trace_nefario_py self (l, q, r)) =
     max 1 (length (dict_get (transitions self) (q, head_symbol r) []))"
  by (cases "dict_get (transitions self) (q, head_symbol r) []") (simp_all add: appended_def)

lemma scan_level_width:
  assumes "scan_level TM_trace_nefario_py self cs nl n = Expanded nl' n'"
  shows "length nl' = length nl + spec_width self cs"
  using assms
proof (induction cs arbitrary: nl n)
  case Nil
  then show ?case by (simp add: spec_width_def)
next
  case (Cons c cs)
  obtain l q r where c: "c = (l, q, r)" by (cases c)
  consider (acc) "q = accept_state self"
    | (rej) "q \<noteq> accept_state self" "q = reject_state self"
    | (bud) "q \<noteq> accept_state self" "q \<noteq> reject_state self" "n + 1 > max_transitions self"
    | (exp) "q \<noteq> accept_state self" "q \<noteq> reject_state self" "n + 1 \<le> max_transitions self"
    by linarith
  then show ?case
  proof cases
    case acc
    with Cons.prems c show ?thesis by simp
  next
    case rej
    with Cons.prems c have "scan_level TM_trace_nefario_py self cs nl n = Expanded nl' n'"
      by simp
    from Cons.IH [OF this] rej c show ?thesis by (simp add: spec_width_def)
  next
    case bud
    with Cons.prems c show ?thesis by simp
  next
    case exp
    with Cons.prems c
    have "scan_level TM_trace_nefario_py self cs
            (nl @ appended TM_trace_nefario_py self (l, q, r)) (n + 1) = Expanded nl' n'"
      by (simp only: scan_level_expand [OF exp])
    from Cons.IH [OF this] exp c show ?thesis
      by (simp add: spec_width_def length_appended_trace)
  qed
qed

lemma widths_ok_snoc:
  assumes "widths_ok self tree" and "tree \<noteq> []" and "length nl = spec_width self (last tree)"
  shows "widths_ok self (tree @ [nl])"
  unfolding widths_ok_def
proof (intro allI impI)
  fix i assume i: "Suc i < length (tree @ [nl])"
  show "length ((tree @ [nl]) ! Suc i) = spec_width self ((tree @ [nl]) ! i)"
  proof (cases "Suc i < length tree")
    case True
    with assms(1) show ?thesis by (simp add: widths_ok_def nth_append)
  next
    case False
    with i have si: "Suc i = length tree" by simp
    then have "i = length tree - 1" by simp
    with si assms(2,3) show ?thesis
      by (simp add: nth_append last_conv_nth)
  qed
qed

lemma run_loop_widths:
  assumes "widths_ok self tree" and "tree \<noteq> []"
  shows "widths_ok self (final_tree (run_loop TM_trace_nefario_py self tree n))"
  using assms
proof (induction v\<equiv>"TM_trace_nefario_py" self tree n rule: run_loop.induct)
  case (1 self tree n)
  note prems = "1.prems"
  show ?case
  proof (cases "tree \<noteq> [] \<and> n < max_transitions self")
    case False
    then have "run_loop TM_trace_nefario_py self tree n
                 = \<lparr> outcome = NoValidPaths, final_tree = tree, counter = n \<rparr>"
      by (intro run_loop_stop) simp
    with prems show ?thesis by simp
  next
    case True
    then have ne: "tree \<noteq> []" and lt: "n < max_transitions self" by simp_all
    show ?thesis
    proof (cases rule: loop_body_cases [of TM_trace_nefario_py self tree n])
      case (accept n')
      with prems show ?thesis by (simp add: run_loop_Halt [OF ne lt accept(2)])
    next
      case (budget n')
      with prems show ?thesis by (simp add: run_loop_Halt [OF ne lt budget(2)])
    next
      case (empty n')
      with prems show ?thesis by (simp add: run_loop_Halt [OF ne lt empty(2)])
    next
      case (halt nl n')
      from scan_level_width [OF halt(1)] have "length nl = spec_width self (last tree)" by simp
      from widths_ok_snoc [OF prems(1) ne this] show ?thesis
        by (simp add: run_loop_Halt [OF ne lt halt(4)])
    next
      case (continue nl n')
      from scan_level_width [OF continue(1)] have "length nl = spec_width self (last tree)" by simp
      from widths_ok_snoc [OF prems(1) ne this]
      have w: "widths_ok self (tree @ [nl])" .
      have eq: "run_loop TM_trace_nefario_py self tree n
                  = run_loop TM_trace_nefario_py self (tree @ [nl]) n'"
        by (rule run_loop_Continue [OF ne lt continue(5)])
      from "1.hyps" [OF True continue(5) w] show ?thesis unfolding eq by simp
    qed
  qed
qed


lemma spec_width_limits:
  "spec_width (self\<lparr> max_depth := d, max_transitions := t \<rparr>) = spec_width self"
  by (simp add: spec_width_def fun_eq_iff case_prod_beta cong: if_cong)

lemma implicit_reject_successor:
  assumes "dict_get (transitions self) (q, head_symbol r) [] = []"
  shows "appended TM_trace_nefario_py self (l, q, r) = [(l, reject_state self, r)]"
    and "appended Program_py self (l, q, r) = []"
  using assms by (simp_all add: appended_def)

text \<open>
  In \<^verbatim>\<open>TM_trace_nefario.py\<close> every level but the initial one has the width the
  spec gives: the sum over the configurations of the level before that are neither
  accepting nor rejecting of the number of table entries, an empty lookup counting 1 (its
  one successor is the configuration itself in the reject state,
  \<open>implicit_reject_successor\<close>).
\<close>

lemma trace_level_widths:
  assumes "Suc i < length (final_tree (snd (run TM_trace_nefario_py self input_string
                                              max_depth_arg max_transitions_arg)))"
  shows "length (final_tree (snd (run TM_trace_nefario_py self input_string
                                    max_depth_arg max_transitions_arg)) ! Suc i)
         = spec_width self
             (final_tree (snd (run TM_trace_nefario_py self input_string
                                 max_depth_arg max_transitions_arg)) ! i)"
proof -
  define self' where "self' = self\<lparr> max_depth := max_depth_arg, max_transitions := max_transitions_arg \<rparr>"
  define tree0 :: "config list list" where "tree0 = [[('''', start_state self, input_string)]]"
  have run: "snd (run TM_trace_nefario_py self input_string max_depth_arg max_transitions_arg)
               = run_loop TM_trace_nefario_py self' tree0 0"
    by (simp add: run_def self'_def tree0_def Let_def)
  have "widths_ok self' tree0" and "tree0 \<noteq> []"
    by (simp_all add: widths_ok_def tree0_def)
  from run_loop_widths [OF this, of 0]
  have "widths_ok self (final_tree (run_loop TM_trace_nefario_py self' tree0 0))"
    by (simp add: widths_ok_def self'_def spec_width_limits)
  with assms show ?thesis
    unfolding run by (simp add: widths_ok_def)
qed

text \<open>
  Claim C2 on \<^verbatim>\<open>program.py\<close>, which has no branch for the empty lookup: on the
  machine \<^const>\<open>fork\<close>, input \<^verbatim>\<open>0\<close>, \<^verbatim>\<open>max_depth = 2\<close>, level 1 holds
  a configuration in \<^verbatim>\<open>q1\<close> (one table entry) and one in \<^verbatim>\<open>q2\<close> (no
  entry), so the claim gives level 2 the width 2; \<^verbatim>\<open>program.py\<close> builds a level 2
  of width 1, the configuration in \<^verbatim>\<open>q2\<close> having contributed nothing, while
  \<^verbatim>\<open>TM_trace_nefario.py\<close> builds the two configurations.
\<close>

theorem program_py_drops_undefined_move:
  "final_tree (snd (run Program_py fork ''0'' 2 1000)) =
     [[('''', ''q0'', ''0'')],
      [(''0'', ''q1'', ''_''), (''0'', ''q2'', ''_'')],
      [(''0_'', ''q1'', ''_'')]]
   \<and> spec_width fork [(''0'', ''q1'', ''_''), (''0'', ''q2'', ''_'')] = 2
   \<and> final_tree (snd (run TM_trace_nefario_py fork ''0'' 2 1000)) =
     [[('''', ''q0'', ''0'')],
      [(''0'', ''q1'', ''_''), (''0'', ''q2'', ''_'')],
      [(''0_'', ''q1'', ''_''), (''0'', ''qr'', ''_'')]]"
  by (simp add: engine_defs machine_defs spec_width_def)

subsection \<open>The two source files\<close>

lemma scan_level_agree:
  assumes "list_all (has_move self) cs"
  shows "scan_level Program_py self cs nl n = scan_level TM_trace_nefario_py self cs nl n"
  using assms
proof (induction cs arbitrary: nl n)
  case Nil
  then show ?case by simp
next
  case (Cons c cs)
  obtain l q r where c: "c = (l, q, r)" by (cases c)
  from Cons.prems have rest: "list_all (has_move self) cs" by simp
  from Cons.prems c have
    "q = accept_state self \<or> q = reject_state self
     \<or> dict_get (transitions self) (q, head_symbol r) [] \<noteq> []"
    by (simp add: has_move_def)
  with Cons.IH [OF rest] c show ?case by auto
qed

lemma loop_body_agree:
  assumes "list_all (has_move self) (last tree)"
  shows "loop_body Program_py self tree n = loop_body TM_trace_nefario_py self tree n"
  by (simp add: loop_body_def scan_level_agree [OF assms])

lemma scan_level_same_halt:
  "case scan_level TM_trace_nefario_py self cs nlT n of
     Accept k \<Rightarrow> scan_level Program_py self cs nlP n = Accept k
   | Budget k \<Rightarrow> scan_level Program_py self cs nlP n = Budget k
   | Expanded nl' k \<Rightarrow> True"
proof (induction cs arbitrary: nlT nlP n)
  case Nil
  show ?case by simp
next
  case (Cons c cs)
  obtain l q r where c: "c = (l, q, r)" by (cases c)
  consider (acc) "q = accept_state self"
    | (rej) "q \<noteq> accept_state self" "q = reject_state self"
    | (bud) "q \<noteq> accept_state self" "q \<noteq> reject_state self" "n + 1 > max_transitions self"
    | (exp) "q \<noteq> accept_state self" "q \<noteq> reject_state self" "n + 1 \<le> max_transitions self"
    by linarith
  then show ?case
  proof cases
    case acc
    with c show ?thesis by simp
  next
    case rej
    with c have eT: "scan_level TM_trace_nefario_py self (c # cs) nlT n =
        scan_level TM_trace_nefario_py self cs nlT n"
      and eP: "scan_level Program_py self (c # cs) nlP n = scan_level Program_py self cs nlP n"
      by simp_all
    from Cons.IH [where nlT = nlT and n = n and nlP = nlP]
    show ?thesis unfolding eT eP .
  next
    case bud
    with c show ?thesis by simp
  next
    case exp
    have eT: "scan_level TM_trace_nefario_py self (c # cs) nlT n =
        scan_level TM_trace_nefario_py self cs
          (nlT @ appended TM_trace_nefario_py self (l, q, r)) (n + 1)"
      unfolding c using exp by (rule scan_level_expand)
    have eP: "scan_level Program_py self (c # cs) nlP n =
        scan_level Program_py self cs (nlP @ appended Program_py self (l, q, r)) (n + 1)"
      unfolding c using exp by (rule scan_level_expand)
    from Cons.IH [where nlT = "nlT @ appended TM_trace_nefario_py self (l, q, r)"
        and n = "n + 1" and nlP = "nlP @ appended Program_py self (l, q, r)"]
    show ?thesis unfolding eT eP .
  qed
qed

lemma spec_width_zero:
  assumes "spec_width self cs = 0"
  shows "list_all (has_move self) cs"
  using assms
  by (induction cs) (auto simp: spec_width_def has_move_def split: if_splits)

lemma final_tree_prefix:
  "take (length tree) (final_tree (run_loop v self tree n)) = tree"
proof (induction v self tree n rule: run_loop.induct)
  case (1 v self tree n)
  show ?case
  proof (cases "tree \<noteq> [] \<and> n < max_transitions self")
    case False
    then have "run_loop v self tree n = \<lparr> outcome = NoValidPaths, final_tree = tree, counter = n \<rparr>"
      by (intro run_loop_stop) simp
    then show ?thesis by simp
  next
    case True
    then have ne: "tree \<noteq> []" and lt: "n < max_transitions self" by simp_all
    show ?thesis
    proof (cases rule: loop_body_cases [of v self tree n])
      case (accept n')
      then show ?thesis by (simp add: run_loop_Halt [OF ne lt accept(2)])
    next
      case (budget n')
      then show ?thesis by (simp add: run_loop_Halt [OF ne lt budget(2)])
    next
      case (empty n')
      then show ?thesis by (simp add: run_loop_Halt [OF ne lt empty(2)])
    next
      case (halt nl n')
      then show ?thesis by (simp add: run_loop_Halt [OF ne lt halt(4)])
    next
      case (continue nl n')
      from "1.IH" [OF True continue(5)]
      have "take (length tree) (take (length (tree @ [nl]))
              (final_tree (run_loop v self (tree @ [nl]) n'))) = take (length tree) (tree @ [nl])"
        by simp
      then show ?thesis
        unfolding run_loop_Continue [OF ne lt continue(5)] by (simp add: min_def)
    qed
  qed
qed

lemma run_loop_agree_exact:
  assumes "list_all (list_all (has_move self))
             (butlast (final_tree (run_loop TM_trace_nefario_py self tree n)))"
  shows "run_loop Program_py self tree n = run_loop TM_trace_nefario_py self tree n"
  using assms
proof (induction v\<equiv>"TM_trace_nefario_py" self tree n rule: run_loop.induct)
  case (1 self tree n)
  note prems = "1.prems"
  show ?case
  proof (cases "tree \<noteq> [] \<and> n < max_transitions self")
    case False
    then show ?thesis by (simp add: run_loop_stop [of tree n self])
  next
    case True
    then have ne: "tree \<noteq> []" and lt: "n < max_transitions self" by simp_all
    note same = scan_level_same_halt [of self "last tree" "[]" n "[]"]
    show ?thesis
    proof (cases rule: loop_body_cases [of TM_trace_nefario_py self tree n])
      case (accept n')
      with same have "loop_body Program_py self tree n = loop_body TM_trace_nefario_py self tree n"
        by (simp add: loop_body_def)
      with accept ne lt show ?thesis by (simp add: run_loop_Halt)
    next
      case (budget n')
      with same have "loop_body Program_py self tree n = loop_body TM_trace_nefario_py self tree n"
        by (simp add: loop_body_def)
      with budget ne lt show ?thesis by (simp add: run_loop_Halt)
    next
      case (empty n')
      from scan_level_width [OF empty(1)] have "spec_width self (last tree) = 0" by simp
      from loop_body_agree [OF spec_width_zero [OF this], of n] empty ne lt
      show ?thesis by (simp add: run_loop_Halt)
    next
      case (halt nl n')
      from prems have "list_all (has_move self) (last tree)"
        using last_in_set [OF ne] by (simp add: run_loop_Halt [OF ne lt halt(4)] list_all_iff)
      from loop_body_agree [OF this, of n] halt ne lt
      show ?thesis by (simp add: run_loop_Halt)
    next
      case (continue nl n')
      let ?final = "final_tree (run_loop TM_trace_nefario_py self (tree @ [nl]) n')"
      have eqT: "run_loop TM_trace_nefario_py self tree n
                   = run_loop TM_trace_nefario_py self (tree @ [nl]) n'"
        by (rule run_loop_Continue [OF ne lt continue(5)])
      from final_tree_prefix [of "tree @ [nl]" TM_trace_nefario_py self n']
      have pre: "take (Suc (length tree)) ?final = tree @ [nl]" by simp
      then have "length ?final \<ge> Suc (length tree)"
        by (metis length_append_singleton length_take min.cobounded1)
      moreover from pre have "take (length tree) ?final = tree"
        by (metis append_eq_conv_conj butlast_snoc butlast_take diff_Suc_1 length_take
            min.absorb2 calculation)
      ultimately have "tree = take (length tree) (butlast ?final)"
        by (simp add: take_butlast)
      then have "set tree \<subseteq> set (butlast ?final)"
        by (metis set_take_subset)
      with prems last_in_set [OF ne] have "list_all (has_move self) (last tree)"
        unfolding eqT by (auto simp: list_all_iff)
      from loop_body_agree [OF this, of n] continue(5)
      have "loop_body Program_py self tree n = Continue (tree @ [nl]) n'" by simp
      then have eqP: "run_loop Program_py self tree n = run_loop Program_py self (tree @ [nl]) n'"
        by (rule run_loop_Continue [OF ne lt])
      from "1.hyps" [OF True continue(5)] prems show ?thesis
        unfolding eqT eqP by simp
    qed
  qed
qed

text \<open>
  Where the two files agree: if every configuration in every level but the last of the tree
  that \<^verbatim>\<open>TM_trace_nefario.py\<close> builds is accepting, rejecting, or has at least one
  table entry for its state and head symbol, the two files give the same outcome, depth,
  tree and counter and leave the object in the same state. (The last level is either not
  expanded at all, or its successors are dropped at an acceptance or a budget stop.)
\<close>

lemma variants_agree:
  assumes "list_all (list_all (has_move self))
             (butlast (final_tree (snd (run TM_trace_nefario_py self input_string
                                          max_depth_arg max_transitions_arg))))"
  shows "run Program_py self input_string max_depth_arg max_transitions_arg
         = run TM_trace_nefario_py self input_string max_depth_arg max_transitions_arg"
proof -
  define self' where
    "self' = self\<lparr> max_depth := max_depth_arg, max_transitions := max_transitions_arg \<rparr>"
  have hm: "has_move self' = has_move self"
    by (simp add: has_move_def self'_def fun_eq_iff case_prod_beta)
  from assms have "list_all (list_all (has_move self'))
      (butlast (final_tree
         (run_loop TM_trace_nefario_py self' [[('''', start_state self', input_string)]] 0)))"
    unfolding hm by (simp add: run_def self'_def Let_def)
  from run_loop_agree_exact [OF this] show ?thesis
    by (simp add: run_def self'_def Let_def)
qed

lemma variants_agree_fork:
  "run Program_py fork ''0'' 1 1000 = run TM_trace_nefario_py fork ''0'' 1 1000"
proof -
  have t: "final_tree (snd (run TM_trace_nefario_py fork ''0'' 1 1000)) =
             [[('''', ''q0'', ''0'')], [(''0'', ''q1'', ''_''), (''0'', ''q2'', ''_'')]]"
    by (simp add: engine_defs machine_defs)
  have "list_all (list_all (has_move fork))
          (butlast (final_tree (snd (run TM_trace_nefario_py fork ''0'' 1 1000))))"
    unfolding t by (simp add: has_move_def machine_defs dict_get_def head_symbol_def)
  then show ?thesis by (rule variants_agree)
qed

text \<open>
  Claim C1: for every machine, input, depth limit and budget, \<^verbatim>\<open>run\<close> of
  \<^verbatim>\<open>program.py\<close> and \<^verbatim>\<open>run\<close> of \<^verbatim>\<open>TM_trace_nefario.py\<close> give the same
  outcome, the same depth and the same tree. The code breaks it where a configuration has
  no table entry: \<^verbatim>\<open>program.py\<close> lacks the branch that
  \<^verbatim>\<open>TM_trace_nefario.py\<close> has for the empty lookup. On the machine without
  transitions and input \<^verbatim>\<open>0\<close>, \<^verbatim>\<open>program.py\<close> reports a rejection in 0
  transitions with a tree of one level, \<^verbatim>\<open>TM_trace_nefario.py\<close> a rejection in 1
  transition with a tree of two levels.
\<close>

theorem variants_differ:
  "snd (run Program_py no_rules ''0'' 100 1000) =
     \<lparr> outcome = Rejected 0, final_tree = [[('''', ''q0'', ''0'')]], counter = 1 \<rparr>
   \<and> snd (run TM_trace_nefario_py no_rules ''0'' 100 1000) =
     \<lparr> outcome = Rejected 1,
       final_tree = [[('''', ''q0'', ''0'')], [('''', ''qr'', ''0'')]], counter = 1 \<rparr>
   \<and> run Program_py no_rules ''0'' 100 1000 \<noteq> run TM_trace_nefario_py no_rules ''0'' 100 1000"
proof -
  have p: "snd (run Program_py no_rules ''0'' 100 1000) =
     \<lparr> outcome = Rejected 0, final_tree = [[('''', ''q0'', ''0'')]], counter = 1 \<rparr>"
    by (simp add: engine_defs machine_defs)
  have t: "snd (run TM_trace_nefario_py no_rules ''0'' 100 1000) =
     \<lparr> outcome = Rejected 1,
       final_tree = [[('''', ''q0'', ''0'')], [('''', ''qr'', ''0'')]], counter = 1 \<rparr>"
    by (simp add: engine_defs machine_defs)
  have "snd (run Program_py no_rules ''0'' 100 1000)
          \<noteq> snd (run TM_trace_nefario_py no_rules ''0'' 100 1000)"
    unfolding p t by simp
  then have "run Program_py no_rules ''0'' 100 1000 \<noteq> run TM_trace_nefario_py no_rules ''0'' 100 1000"
    by auto
  with p t show ?thesis by simp
qed

end
